theory Spec2Isabelle
  imports Complex_Main
begin

section \<open>RAM calculation: \<^verbatim>\<open>src/Script/RamCalculations.ts\<close>\<close>

text \<open>
  A shallow embedding of the two functions of the file:
  \<^verbatim>\<open>getRamCalculationForKeys\<close> (the cost aggregator) and \<^verbatim>\<open>checkInfiniteLoop\<close>
  (the loop safety analyzer).

  JavaScript numbers are modelled as \<^typ>\<open>real\<close>: the rounding of IEEE doubles and
  the value NaN are abstracted away. Strings are \<^typ>\<open>string\<close>.
\<close>

subsection \<open>Data model\<close>

text \<open>\<^verbatim>\<open>RamUsageEntry.type\<close>: one of \<^verbatim>\<open>'ns' | 'dom' | 'fn' | 'misc'\<close>.\<close>

datatype entry_type = Ns | Dom | Fn | Misc

record RamUsageEntry =
  type :: entry_type
  name :: string
  cost :: real

text \<open>
  \<^verbatim>\<open>RamCalculation\<close>: the field \<^verbatim>\<open>cost\<close> shares its name with the field of
  \<^verbatim>\<open>RamUsageEntry\<close>, so both are written qualified below.
\<close>

record RamCalculation =
  cost :: real
  entries :: "RamUsageEntry list"

text \<open>
  \<^verbatim>\<open>RamCostConstants\<close> is imported from \<^verbatim>\<open>../Netscript/RamCostGenerator\<close>; the values
  of its constants are a parameter of the model.
\<close>

record RamCostConstants =
  ScriptBaseRamCost :: real
  ScriptHacknetNodesRamCost :: real
  ScriptDomRamCost :: real
  ScriptCorporationRamCost :: real

text \<open>
  A value stored in \<^verbatim>\<open>RamCosts\<close>, as the code classifies it with \<^verbatim>\<open>typeof\<close>: a
  number, a function of the player, or anything else (an object, a string, ...).
  \<open>Undefined\<close> is what reading an absent key yields. A function is one whose call
  returns a number; a call that throws is the matter of the second model of the
  function, further down, which this one agrees with whenever no call throws.
\<close>

datatype 'p js_value =
    Undefined
  | Number real
  | Function "'p \<Rightarrow> real"
  | OtherValue

text \<open>
  \<^verbatim>\<open>RamCosts\<close> is imported from \<^verbatim>\<open>../Netscript/RamCostGenerator\<close> too and is a
  parameter of the model. The code reads it in two ways: \<^verbatim>\<open>RamCosts[namespace]\<close> is an
  object keyed by function names (\<open>namespaceTable\<close>), and \<^verbatim>\<open>RamCosts[key]\<close> is a
  top-level entry (\<open>topLevel\<close>). A table is a map: \<open>None\<close> means that
  \<^verbatim>\<open>key in table\<close> is false.
\<close>

type_synonym 'p cost_table = "string \<rightharpoonup> 'p js_value"

record 'p RamCosts =
  namespaceTable :: "string \<Rightarrow> 'p cost_table"
  topLevel :: "'p cost_table"

subsection \<open>\<^verbatim>\<open>getRamCalculationForKeys\<close>\<close>

text \<open>The \<^verbatim>\<open>switch(key)\<close> on the special keys: the entry pushed, if any.\<close>

definition specialKey :: "RamCostConstants \<Rightarrow> string \<Rightarrow> RamUsageEntry option" where
  "specialKey c key =
     (if key = ''hacknet'' then
        Some \<lparr>type = Ns, name = ''hacknet'', RamUsageEntry.cost = ScriptHacknetNodesRamCost c\<rparr>
      else if key = ''document'' then
        Some \<lparr>type = Dom, name = ''document'', RamUsageEntry.cost = ScriptDomRamCost c\<rparr>
      else if key = ''window'' then
        Some \<lparr>type = Dom, name = ''window'', RamUsageEntry.cost = ScriptDomRamCost c\<rparr>
      else if key = ''corporation'' then
        Some \<lparr>type = Ns, name = ''corporation'', RamUsageEntry.cost = ScriptCorporationRamCost c\<rparr>
      else None)"

text \<open>The list the inner \<^verbatim>\<open>for\<close> loop iterates over.\<close>

definition namespaces :: "string list" where
  "namespaces =
     [''bladeburner'', ''codingcontract'', ''stanek'', ''gang'', ''sleeve'', ''stock'', ''ui'']"

text \<open>
  The inner loop \<^verbatim>\<open>for(const namespace of [...])\<close> with its \<^verbatim>\<open>break\<close>: the pair
  \<^verbatim>\<open>(cost, name)\<close> it assigns, or \<open>None\<close> when \<^verbatim>\<open>name\<close> is still \<^verbatim>\<open>null\<close> after it.
\<close>

fun findNamespace :: "'p RamCosts \<Rightarrow> string \<Rightarrow> string list \<Rightarrow> ('p js_value \<times> string) option" where
  "findNamespace rc key [] = None"
| "findNamespace rc key (ns # rest) =
     (case namespaceTable rc ns key of
        Some v \<Rightarrow> Some (v, ns @ ''.'' @ key)
      | None \<Rightarrow> findNamespace rc key rest)"

text \<open>Reading \<^verbatim>\<open>RamCosts[key]\<close>: \<^verbatim>\<open>undefined\<close> for an absent key.\<close>

definition getProperty :: "'p cost_table \<Rightarrow> string \<Rightarrow> 'p js_value" where
  "getProperty t key = (case t key of None \<Rightarrow> Undefined | Some v \<Rightarrow> v)"

text \<open>Lines 54 to 65: the values of \<^verbatim>\<open>cost\<close> and \<^verbatim>\<open>name\<close> after the fallback.\<close>

definition resolve :: "'p RamCosts \<Rightarrow> string \<Rightarrow> 'p js_value \<times> string" where
  "resolve rc key =
     (case findNamespace rc key namespaces of
        Some r \<Rightarrow> r
      | None \<Rightarrow> (getProperty (topLevel rc) key, key))"

text \<open>
  Lines 67 to 70: a function is called with the player, a number is kept, anything else
  becomes 0.
\<close>

fun evalCost :: "'p \<Rightarrow> 'p js_value \<Rightarrow> real" where
  "evalCost player (Function f) = f player"
| "evalCost player (Number n) = n"
| "evalCost player Undefined = 0"
| "evalCost player OtherValue = 0"

text \<open>
  One iteration of \<^verbatim>\<open>for(const key of keys)\<close> on the state \<^verbatim>\<open>(entries, seen)\<close>.
  Each \<^verbatim>\<open>continue\<close> returns the state reached.
\<close>

definition processKey ::
  "RamCostConstants \<Rightarrow> 'p RamCosts \<Rightarrow> 'p \<Rightarrow> string \<Rightarrow>
   RamUsageEntry list \<times> string set \<Rightarrow> RamUsageEntry list \<times> string set" where
  "processKey c rc player key st =
     (case st of (ents, seen) \<Rightarrow>
        if key \<in> seen then (ents, seen)
        else
          (case specialKey c key of
             Some e \<Rightarrow> (ents @ [e], insert key seen)
           | None \<Rightarrow>
               (case resolve rc key of (v, nm) \<Rightarrow>
                  let cst = evalCost player v in
                  if cst = 0 then (ents, insert key seen)
                  else (ents @ [\<lparr>type = Fn, name = nm, RamUsageEntry.cost = cst\<rparr>],
                        insert key seen))))"

text \<open>Line 28: the entry that \<^verbatim>\<open>entries\<close> starts with.\<close>

definition baseEntry :: "RamCostConstants \<Rightarrow> RamUsageEntry" where
  "baseEntry c = \<lparr>type = Misc, name = ''baseCost'', RamUsageEntry.cost = ScriptBaseRamCost c\<rparr>"

text \<open>
  Lines 76 to 80: the filter on the entries, the loop
  \<^verbatim>\<open>for(const entry of entries) totalRam += entry.cost\<close> (a left fold from 0) and the
  object returned.
\<close>

definition filterAndSum :: "RamUsageEntry list \<Rightarrow> RamCalculation" where
  "filterAndSum ents =
     (let ents2 = filter (\<lambda>entry. RamUsageEntry.cost entry > 0) ents;
          totalRam = foldl (\<lambda>t entry. t + RamUsageEntry.cost entry) 0 ents2
      in \<lparr>RamCalculation.cost = totalRam, entries = ents2\<rparr>)"

text \<open>
  The function. \<^verbatim>\<open>RamCostConstants\<close> and \<^verbatim>\<open>RamCosts\<close>, module constants in the
  source, come first. \<^verbatim>\<open>keys\<close> is an iterable; a list models a finite one. The set
  \<^verbatim>\<open>seen\<close> starts empty.
\<close>

definition getRamCalculationForKeys ::
  "RamCostConstants \<Rightarrow> 'p RamCosts \<Rightarrow> 'p \<Rightarrow> string list \<Rightarrow> RamCalculation" where
  "getRamCalculationForKeys c rc player keys =
     filterAndSum (fst (fold (processKey c rc player) keys ([baseEntry c], {})))"

subsection \<open>\<^verbatim>\<open>getRamCalculationForKeys\<close>, with the calls that throw\<close>

text \<open>
  The function has no \<^verbatim>\<open>try\<close>: when the call \<^verbatim>\<open>cost(player)\<close> of line 68 throws,
  the function throws. The objects of the catalog also have the properties of their
  prototype, and \<^verbatim>\<open>key in RamCosts[namespace]\<close> (line 56) and the reads of lines 57
  and 63 see an inherited property as they see an own one. This second model of the
  function has both: a function of the catalog returns a number or throws, and an
  object is its own properties together with the inherited ones.
\<close>

datatype js_error = TypeError | OtherError

text \<open>
  A property of an object of the catalog, classified as \<^verbatim>\<open>typeof\<close> does; the call of
  a function gives the error thrown or the number returned.
\<close>

datatype 'p js_property =
    PropUndefined
  | PropNumber real
  | PropFunction "'p \<Rightarrow> js_error + real"
  | PropOther

text \<open>
  The catalog as objects: the own properties of \<^verbatim>\<open>RamCosts[namespace]\<close> and of
  \<^verbatim>\<open>RamCosts\<close>, and the properties that all of them inherit.
\<close>

record 'p RamCostsObject =
  ownNamespace :: "string \<Rightarrow> (string \<rightharpoonup> 'p js_property)"
  ownTopLevel :: "string \<rightharpoonup> 'p js_property"
  inherited :: "string \<rightharpoonup> 'p js_property"

text \<open>\<^verbatim>\<open>key in object\<close>, and the read \<^verbatim>\<open>object[key]\<close>.\<close>

definition hasProperty ::
  "(string \<rightharpoonup> 'p js_property) \<Rightarrow> (string \<rightharpoonup> 'p js_property) \<Rightarrow> string \<Rightarrow> bool" where
  "hasProperty own inh key = (own key \<noteq> None \<or> inh key \<noteq> None)"

definition getMember ::
  "(string \<rightharpoonup> 'p js_property) \<Rightarrow> (string \<rightharpoonup> 'p js_property) \<Rightarrow> string \<Rightarrow> 'p js_property" where
  "getMember own inh key =
     (case own key of
        Some v \<Rightarrow> v
      | None \<Rightarrow> (case inh key of Some v \<Rightarrow> v | None \<Rightarrow> PropUndefined))"

text \<open>The inner loop and lines 54 to 65, on the objects.\<close>

fun findNamespaceObject ::
  "'p RamCostsObject \<Rightarrow> string \<Rightarrow> string list \<Rightarrow> ('p js_property \<times> string) option" where
  "findNamespaceObject rc key [] = None"
| "findNamespaceObject rc key (ns # rest) =
     (if hasProperty (ownNamespace rc ns) (inherited rc) key
      then Some (getMember (ownNamespace rc ns) (inherited rc) key, ns @ ''.'' @ key)
      else findNamespaceObject rc key rest)"

definition resolveObject :: "'p RamCostsObject \<Rightarrow> string \<Rightarrow> 'p js_property \<times> string" where
  "resolveObject rc key =
     (case findNamespaceObject rc key namespaces of
        Some r \<Rightarrow> r
      | None \<Rightarrow> (getMember (ownTopLevel rc) (inherited rc) key, key))"

text \<open>Lines 67 to 70: the call of line 68 returns its number or throws.\<close>

fun callCost :: "'p \<Rightarrow> 'p js_property \<Rightarrow> js_error + real" where
  "callCost player (PropFunction f) = f player"
| "callCost player (PropNumber n) = Inr n"
| "callCost player PropUndefined = Inr 0"
| "callCost player PropOther = Inr 0"

text \<open>One iteration of the loop over the keys; an error leaves the loop.\<close>

definition processKeyThrowing ::
  "RamCostConstants \<Rightarrow> 'p RamCostsObject \<Rightarrow> 'p \<Rightarrow> string \<Rightarrow>
   RamUsageEntry list \<times> string set \<Rightarrow> js_error + RamUsageEntry list \<times> string set" where
  "processKeyThrowing c rc player key st =
     (case st of (ents, seen) \<Rightarrow>
        if key \<in> seen then Inr (ents, seen)
        else
          (case specialKey c key of
             Some e \<Rightarrow> Inr (ents @ [e], insert key seen)
           | None \<Rightarrow>
               (case resolveObject rc key of (v, nm) \<Rightarrow>
                  (case callCost player v of
                     Inl err \<Rightarrow> Inl err
                   | Inr cst \<Rightarrow>
                       if cst = 0 then Inr (ents, insert key seen)
                       else Inr (ents @ [\<lparr>type = Fn, name = nm, RamUsageEntry.cost = cst\<rparr>],
                                 insert key seen)))))"

text \<open>The loop \<^verbatim>\<open>for(const key of keys)\<close>.\<close>

fun forKeys ::
  "RamCostConstants \<Rightarrow> 'p RamCostsObject \<Rightarrow> 'p \<Rightarrow> string list \<Rightarrow>
   RamUsageEntry list \<times> string set \<Rightarrow> js_error + RamUsageEntry list \<times> string set" where
  "forKeys c rc player [] st = Inr st"
| "forKeys c rc player (key # keys) st =
     (case processKeyThrowing c rc player key st of
        Inl err \<Rightarrow> Inl err
      | Inr st' \<Rightarrow> forKeys c rc player keys st')"

text \<open>The function: the error thrown, or the object returned.\<close>

definition getRamCalculationForKeysThrowing ::
  "RamCostConstants \<Rightarrow> 'p RamCostsObject \<Rightarrow> 'p \<Rightarrow> string list \<Rightarrow> js_error + RamCalculation" where
  "getRamCalculationForKeysThrowing c rc player keys =
     (case forKeys c rc player keys ([baseEntry c], {}) of
        Inl err \<Rightarrow> Inl err
      | Inr st \<Rightarrow> Inr (filterAndSum (fst st)))"

subsection \<open>\<^verbatim>\<open>checkInfiniteLoop\<close>\<close>

text \<open>
  The syntax tree that acorn's \<^verbatim>\<open>parse\<close> returns. The three node types the code
  names have a constructor each, with the fields it reads (\<^verbatim>\<open>start\<close>, \<^verbatim>\<open>raw\<close>,
  \<^verbatim>\<open>test\<close>, \<^verbatim>\<open>body\<close>, \<^verbatim>\<open>argument\<close>). Every other node type is an \<open>OtherNode\<close>
  with its type, its \<^verbatim>\<open>start\<close> and the child nodes that the base visitor of
  \<^verbatim>\<open>acorn-walk\<close> descends into, in its order.
\<close>

datatype node =
    Literal nat string
  | AwaitExpression nat node
  | WhileStatement nat node node
  | OtherNode string nat "node list"

text \<open>\<^verbatim>\<open>node.type === "Literal" && node.raw === "true"\<close>\<close>

fun nodeHasTrueTest :: "node \<Rightarrow> bool" where
  "nodeHasTrueTest (Literal start raw) = (raw = ''true'')"
| "nodeHasTrueTest (AwaitExpression start argument) = False"
| "nodeHasTrueTest (WhileStatement start test body) = False"
| "nodeHasTrueTest (OtherNode ty start children) = False"

text \<open>
  The walk of \<^verbatim>\<open>hasAwait\<close>: \<^verbatim>\<open>walk.recursive\<close> with a visitor for
  \<^verbatim>\<open>AwaitExpression\<close> that sets the flag and walks no further; every other node is
  walked by the base visitor (a while statement: its test, then its body). The flag
  is threaded through the walk.
\<close>

fun awaitWalk :: "node \<Rightarrow> bool \<Rightarrow> bool" where
  "awaitWalk (AwaitExpression start argument) flag = True"
| "awaitWalk (Literal start raw) flag = flag"
| "awaitWalk (WhileStatement start test body) flag = awaitWalk body (awaitWalk test flag)"
| "awaitWalk (OtherNode ty start children) flag = fold awaitWalk children flag"

definition hasAwait :: "node \<Rightarrow> bool" where
  "hasAwait ast = awaitWalk ast False"

text \<open>
  \<^verbatim>\<open>(code.slice(0, node.start).match(/\n/g) || []).length + 1\<close>: the number of
  newline characters before the offset, plus one.
\<close>

definition lineOf :: "string \<Rightarrow> nat \<Rightarrow> int" where
  "lineOf code start = int (length (filter (\<lambda>ch. ch = CHR 0x0A) (take start code))) + 1"

text \<open>
  The main walk, threading \<^verbatim>\<open>missingAwaitLine\<close>. The visitor for
  \<^verbatim>\<open>WhileStatement\<close> either assigns the line or calls \<^verbatim>\<open>walkDeeper\<close> on the body
  (a while statement's \<^verbatim>\<open>body\<close> is never null); every other node is walked by the
  base visitor.
\<close>

fun loopWalk :: "string \<Rightarrow> node \<Rightarrow> int \<Rightarrow> int" where
  "loopWalk code (WhileStatement start test body) missingAwaitLine =
     (if nodeHasTrueTest test \<and> \<not> hasAwait (WhileStatement start test body)
      then lineOf code start
      else loopWalk code body missingAwaitLine)"
| "loopWalk code (Literal start raw) missingAwaitLine = missingAwaitLine"
| "loopWalk code (AwaitExpression start argument) missingAwaitLine =
     loopWalk code argument missingAwaitLine"
| "loopWalk code (OtherNode ty start children) missingAwaitLine =
     fold (loopWalk code) children missingAwaitLine"

text \<open>
  The function, with the result of \<^verbatim>\<open>parse(code, ...)\<close> as its second argument: the
  parser is an external library. A source that does not parse makes \<^verbatim>\<open>parse\<close> throw
  before anything modelled here runs.
\<close>

definition checkInfiniteLoop :: "string \<Rightarrow> node \<Rightarrow> int" where
  "checkInfiniteLoop code ast = loopWalk code ast (- 1)"

section \<open>Notions used in the statements\<close>

subsection \<open>The cost aggregator\<close>

text \<open>
  What one iteration of the loop pushes for a key that is not in \<^verbatim>\<open>seen\<close>: the special
  entry, or the \<^verbatim>\<open>'fn'\<close> entry of the resolved cost unless that cost is 0.
\<close>

definition keyEntries :: "RamCostConstants \<Rightarrow> 'p RamCosts \<Rightarrow> 'p \<Rightarrow> string \<Rightarrow> RamUsageEntry list" where
  "keyEntries c rc player key =
     (case specialKey c key of
        Some e \<Rightarrow> [e]
      | None \<Rightarrow>
          (if evalCost player (fst (resolve rc key)) = 0 then []
           else [\<lparr>type = Fn, name = snd (resolve rc key),
                  RamUsageEntry.cost = evalCost player (fst (resolve rc key))\<rparr>]))"

text \<open>The keys that the loop does not skip, in the order it meets them.\<close>

fun unseenKeys :: "string set \<Rightarrow> string list \<Rightarrow> string list" where
  "unseenKeys seen [] = []"
| "unseenKeys seen (k # ks) =
     (if k \<in> seen then unseenKeys seen ks else k # unseenKeys (insert k seen) ks)"

text \<open>
  A table of constants and a catalog to evaluate the function on. The player is a
  number (a level) here. The catalog has a name in two namespaces and at top level
  (\<open>getInformation\<close>), special names inside namespaces (\<open>hacknet\<close>,
  \<open>corporation\<close>), two cost functions and a top-level entry that is an object
  (\<open>bladeburner\<close>).
\<close>

definition exampleConstants :: RamCostConstants where
  "exampleConstants =
     \<lparr>ScriptBaseRamCost = 1.6, ScriptHacknetNodesRamCost = 4,
      ScriptDomRamCost = 25, ScriptCorporationRamCost = 1022.4\<rparr>"

definition exampleCosts :: "nat RamCosts" where
  "exampleCosts =
     \<lparr>namespaceTable = (\<lambda>ns.
        if ns = ''bladeburner'' then [''hacknet'' \<mapsto> Number 5]
        else if ns = ''gang'' then [''getInformation'' \<mapsto> Number 2, ''hacknet'' \<mapsto> Number 3]
        else if ns = ''sleeve'' then [''getInformation'' \<mapsto> Number 4]
        else if ns = ''stock'' then [''corporation'' \<mapsto> Number 1]
        else Map.empty),
      topLevel =
        [''hack'' \<mapsto> Number 0.1,
         ''getInformation'' \<mapsto> Number 9,
         ''refund'' \<mapsto> Function (\<lambda>level. - 1),
         ''scaled'' \<mapsto> Function (\<lambda>level. real level),
         ''bladeburner'' \<mapsto> OtherValue,
         ''corporation'' \<mapsto> Number 2]\<rparr>"

text \<open>
  The same two notions for the model with the calls that throw: what one iteration
  pushes for a key not yet seen, or the error of its call; and the entries pushed for
  a list of keys, or the first error.
\<close>

definition keyEntriesThrowing ::
  "RamCostConstants \<Rightarrow> 'p RamCostsObject \<Rightarrow> 'p \<Rightarrow> string \<Rightarrow> js_error + RamUsageEntry list" where
  "keyEntriesThrowing c rc player key =
     (case specialKey c key of
        Some e \<Rightarrow> Inr [e]
      | None \<Rightarrow>
          (case callCost player (fst (resolveObject rc key)) of
             Inl err \<Rightarrow> Inl err
           | Inr cst \<Rightarrow>
               if cst = 0 then Inr []
               else Inr [\<lparr>type = Fn, name = snd (resolveObject rc key), RamUsageEntry.cost = cst\<rparr>]))"

fun collectEntries ::
  "RamCostConstants \<Rightarrow> 'p RamCostsObject \<Rightarrow> 'p \<Rightarrow> string list \<Rightarrow> js_error + RamUsageEntry list" where
  "collectEntries c rc player [] = Inr []"
| "collectEntries c rc player (key # keys) =
     (case keyEntriesThrowing c rc player key of
        Inl err \<Rightarrow> Inl err
      | Inr es \<Rightarrow>
          (case collectEntries c rc player keys of
             Inl err \<Rightarrow> Inl err
           | Inr es' \<Rightarrow> Inr (es @ es')))"

text \<open>
  The catalog without its errors: every table with the inherited properties in it,
  and every function returning 0 where its call throws. On a run in which no call
  throws, the two models of the function agree on it.
\<close>

fun asValue :: "'p js_property \<Rightarrow> 'p js_value" where
  "asValue PropUndefined = Undefined"
| "asValue (PropNumber n) = Number n"
| "asValue (PropFunction f) = Function (\<lambda>player. case f player of Inl err \<Rightarrow> 0 | Inr n \<Rightarrow> n)"
| "asValue PropOther = OtherValue"

definition visibleTable ::
  "(string \<rightharpoonup> 'p js_property) \<Rightarrow> (string \<rightharpoonup> 'p js_property) \<Rightarrow> 'p cost_table" where
  "visibleTable own inh key =
     (case own key of
        Some v \<Rightarrow> Some (asValue v)
      | None \<Rightarrow> map_option asValue (inh key))"

definition withoutErrors :: "'p RamCostsObject \<Rightarrow> 'p RamCosts" where
  "withoutErrors rc =
     \<lparr>namespaceTable = (\<lambda>ns. visibleTable (ownNamespace rc ns) (inherited rc)),
      topLevel = visibleTable (ownTopLevel rc) (inherited rc)\<rparr>"



subsection \<open>The loop safety analyzer\<close>

text \<open>
  The unsafe loops that the walk reaches, by their \<^verbatim>\<open>start\<close>, in the order the walk
  meets them. An unsafe loop is a while statement whose test is the literal \<^verbatim>\<open>true\<close>
  and whose subtree has no await expression. The walk goes through every child of a
  node that is not a while statement, and through the body of a while statement that
  is not unsafe; it does not enter an unsafe loop.
\<close>

fun reachableUnsafeLoops :: "node \<Rightarrow> nat list" where
  "reachableUnsafeLoops (WhileStatement start test body) =
     (if nodeHasTrueTest test \<and> \<not> hasAwait (WhileStatement start test body)
      then [start]
      else reachableUnsafeLoops body)"
| "reachableUnsafeLoops (Literal start raw) = []"
| "reachableUnsafeLoops (AwaitExpression start argument) = reachableUnsafeLoops argument"
| "reachableUnsafeLoops (OtherNode ty start children) = concat (map reachableUnsafeLoops children)"

text \<open>
  The trees of acorn for the sources \<^verbatim>\<open>while(true){}\<close>,
  \<^verbatim>\<open>while(true){ await f(); }\<close> and \<^verbatim>\<open>while(false){}\<close>.
\<close>

definition whileTrueAst :: node where
  "whileTrueAst =
     OtherNode ''Program'' 0
       [WhileStatement 0 (Literal 6 ''true'') (OtherNode ''BlockStatement'' 11 [])]"

definition whileTrueAwaitAst :: node where
  "whileTrueAwaitAst =
     OtherNode ''Program'' 0
       [WhileStatement 0 (Literal 6 ''true'')
          (OtherNode ''BlockStatement'' 11
             [OtherNode ''ExpressionStatement'' 13
                [AwaitExpression 13
                   (OtherNode ''CallExpression'' 19 [OtherNode ''Identifier'' 19 []])]])]"

definition whileFalseAst :: node where
  "whileFalseAst =
     OtherNode ''Program'' 0
       [WhileStatement 0 (Literal 6 ''false'') (OtherNode ''BlockStatement'' 12 [])]"

text \<open>Two unsafe loops, one per line.\<close>

definition twoLoopsCode :: string where
  "twoLoopsCode = ''while(true){}'' @ [CHR 0x0A] @ ''while(true){}''"

definition twoLoopsAst :: node where
  "twoLoopsAst =
     OtherNode ''Program'' 0
       [WhileStatement 0 (Literal 6 ''true'') (OtherNode ''BlockStatement'' 11 []),
        WhileStatement 14 (Literal 20 ''true'') (OtherNode ''BlockStatement'' 25 [])]"

text \<open>
  An unsafe loop on line 2 inside an unsafe loop on line 1; and the same inner loop
  inside a loop that awaits on line 3.
\<close>

definition nestedUnsafeCode :: string where
  "nestedUnsafeCode = ''while(true){'' @ [CHR 0x0A] @ ''  while(true){}'' @ [CHR 0x0A] @ ''}''"

definition nestedUnsafeAst :: node where
  "nestedUnsafeAst =
     OtherNode ''Program'' 0
       [WhileStatement 0 (Literal 6 ''true'')
          (OtherNode ''BlockStatement'' 11
             [WhileStatement 15 (Literal 21 ''true'') (OtherNode ''BlockStatement'' 26 [])])]"

definition nestedSafeCode :: string where
  "nestedSafeCode =
     ''while(true){'' @ [CHR 0x0A] @ ''  while(true){}'' @ [CHR 0x0A] @
     ''  await f();'' @ [CHR 0x0A] @ ''}''"

definition nestedSafeAst :: node where
  "nestedSafeAst =
     OtherNode ''Program'' 0
       [WhileStatement 0 (Literal 6 ''true'')
          (OtherNode ''BlockStatement'' 11
             [WhileStatement 15 (Literal 21 ''true'') (OtherNode ''BlockStatement'' 26 []),
              OtherNode ''ExpressionStatement'' 31
                [AwaitExpression 31
                   (OtherNode ''CallExpression'' 37 [OtherNode ''Identifier'' 37 []])]])]"

text \<open>
  The tree of acorn for the one-line source
  \<^verbatim>\<open>while(true){ if (x) { while(true){} } await f(); }\<close>.
\<close>

definition ifNestedCode :: string where
  "ifNestedCode = ''while(true){ if (x) { while(true){} } await f(); }''"

definition ifNestedAst :: node where
  "ifNestedAst =
     OtherNode ''Program'' 0
       [WhileStatement 0 (Literal 6 ''true'')
          (OtherNode ''BlockStatement'' 11
             [OtherNode ''IfStatement'' 13
                [OtherNode ''Identifier'' 17 [],
                 OtherNode ''BlockStatement'' 20
                   [WhileStatement 22 (Literal 28 ''true'') (OtherNode ''BlockStatement'' 33 [])]],
              OtherNode ''ExpressionStatement'' 38
                [AwaitExpression 38
                   (OtherNode ''CallExpression'' 44 [OtherNode ''Identifier'' 44 []])]])]"

section \<open>The cost aggregator\<close>

subsection \<open>The loop over the keys\<close>

lemmas example_defs = exampleConstants_def exampleCosts_def getRamCalculationForKeys_def
  filterAndSum_def baseEntry_def processKey_def specialKey_def resolve_def namespaces_def
  getProperty_def

lemma foldl_cost_sum:
  "foldl (\<lambda>t entry. t + RamUsageEntry.cost entry) a es = a + sum_list (map RamUsageEntry.cost es)"
  by (induction es arbitrary: a) simp_all

lemma processKey_seen: "key \<in> seen \<Longrightarrow> processKey c rc player key (es, seen) = (es, seen)"
  by (simp add: processKey_def)

lemma processKey_unseen:
  "key \<notin> seen \<Longrightarrow>
   processKey c rc player key (es, seen) = (es @ keyEntries c rc player key, insert key seen)"
  by (simp add: processKey_def keyEntries_def Let_def split: option.splits prod.splits)

lemma fold_processKey:
  "fold (processKey c rc player) keys (es, seen) =
   (es @ concat (map (keyEntries c rc player) (unseenKeys seen keys)), seen \<union> set keys)"
proof (induction keys arbitrary: es seen)
  case Nil
  show ?case by simp
next
  case (Cons k ks)
  show ?case
  proof (cases "k \<in> seen")
    case True
    then show ?thesis by (simp add: processKey_seen Cons.IH insert_absorb)
  next
    case False
    then show ?thesis by (simp add: processKey_unseen Cons.IH)
  qed
qed

lemma getRam_unseenKeys:
  "getRamCalculationForKeys c rc player keys =
   (let es = filter (\<lambda>entry. RamUsageEntry.cost entry > 0)
               (baseEntry c # concat (map (keyEntries c rc player) (unseenKeys {} keys)))
    in \<lparr>RamCalculation.cost = sum_list (map RamUsageEntry.cost es), entries = es\<rparr>)"
  by (simp add: getRamCalculationForKeys_def filterAndSum_def Let_def fold_processKey foldl_cost_sum)

lemma set_unseenKeys: "set (unseenKeys seen ks) = set ks - seen"
  by (induction ks arbitrary: seen) auto

lemma distinct_unseenKeys: "distinct (unseenKeys seen ks)"
  by (induction ks arbitrary: seen) (auto simp: set_unseenKeys)

lemma unseenKeys_append:
  "unseenKeys seen (as @ bs) = unseenKeys seen as @ unseenKeys (seen \<union> set as) bs"
  by (induction as arbitrary: seen) (simp_all add: insert_absorb)

lemma unseenKeys_insert: "unseenKeys (insert k seen) ks = removeAll k (unseenKeys seen ks)"
proof (induction ks arbitrary: seen)
  case Nil
  show ?case by simp
next
  case (Cons x xs)
  show ?case
  proof (cases "x = k")
    case True
    then show ?thesis using Cons.IH [of seen] Cons.IH [of "insert k seen"] by simp
  next
    case False
    then show ?thesis using Cons.IH [of seen] Cons.IH [of "insert x seen"]
      by (simp add: insert_commute)
  qed
qed

lemma unseenKeys_removeAll:
  "unseenKeys seen (removeAll k ks) = removeAll k (unseenKeys seen ks)"
proof (induction ks arbitrary: seen)
  case Nil
  show ?case by simp
next
  case (Cons x xs)
  show ?case
  proof (cases "x = k")
    case True
    then show ?thesis using Cons.IH [of seen] unseenKeys_insert [of k seen xs] by simp
  next
    case False
    then show ?thesis using Cons.IH by simp
  qed
qed

lemma concat_map_removeAll:
  "g k = [] \<Longrightarrow> concat (map g (removeAll k xs)) = concat (map g xs)"
  by (induction xs) auto

lemma filter_concat_map:
  "filter P (concat (map g xs)) = concat (map (\<lambda>x. filter P (g x)) xs)"
  by (induction xs) simp_all

lemma getRam_removeAll:
  assumes "filter (\<lambda>entry. RamUsageEntry.cost entry > 0) (keyEntries c rc player key) = []"
  shows "getRamCalculationForKeys c rc player (removeAll key keys) =
         getRamCalculationForKeys c rc player keys"
  using assms
  by (simp add: getRam_unseenKeys unseenKeys_removeAll filter_concat_map concat_map_removeAll)

lemma length_keyEntries: "length (keyEntries c rc player key) \<le> 1"
  by (simp add: keyEntries_def split: option.splits)

lemma length_concat_keyEntries:
  "length (concat (map (keyEntries c rc player) ks)) \<le> length ks"
proof (induction ks)
  case Nil
  show ?case by simp
next
  case (Cons k ks)
  then show ?case using length_keyEntries [of c rc player k] by simp
qed

lemma length_entries_getRam:
  "length (entries (getRamCalculationForKeys c rc player keys)) \<le> Suc (card (set keys))"
proof -
  have "length (unseenKeys {} keys) = card (set keys)"
    using distinct_card [OF distinct_unseenKeys, of "{}" keys] by (simp add: set_unseenKeys)
  moreover have "length (entries (getRamCalculationForKeys c rc player keys))
        \<le> Suc (length (concat (map (keyEntries c rc player) (unseenKeys {} keys))))"
    unfolding getRam_unseenKeys Let_def
    by (simp add: le_SucI) 
  ultimately show ?thesis
    using length_concat_keyEntries [of c rc player "unseenKeys {} keys"] by linarith
qed

lemma keyEntries_in_entries:
  assumes "key \<in> set keys" and "e \<in> set (keyEntries c rc player key)"
    and "0 < RamUsageEntry.cost e"
  shows "e \<in> set (entries (getRamCalculationForKeys c rc player keys))"
proof -
  have "key \<in> set (unseenKeys {} keys)"
    using assms(1) by (simp add: set_unseenKeys)
  then show ?thesis using assms(2,3)
    by (auto simp add: getRam_unseenKeys Let_def)
qed

lemma findNamespace_first:
  assumes "i < length nss" and "namespaceTable rc (nss ! i) key = Some v"
    and "\<forall>j<i. namespaceTable rc (nss ! j) key = None"
  shows "findNamespace rc key nss = Some (v, nss ! i @ ''.'' @ key)"
  using assms
proof (induction nss arbitrary: i)
  case Nil
  then show ?case by simp
next
  case (Cons ns rest)
  show ?case
  proof (cases i)
    case 0
    then show ?thesis using Cons.prems by simp
  next
    case (Suc i')
    have h0: "namespaceTable rc ns key = None"
      using Cons.prems(3) Suc by auto
    have "\<forall>j<i'. namespaceTable rc (rest ! j) key = None"
      using Cons.prems(3) Suc by auto
    then have "findNamespace rc key rest = Some (v, rest ! i' @ ''.'' @ key)"
      using Cons.IH [of i'] Cons.prems(1,2) Suc by simp
    then show ?thesis using h0 Suc by simp
  qed
qed

lemma findNamespace_None:
  "findNamespace rc key nss = None \<longleftrightarrow> (\<forall>ns\<in>set nss. namespaceTable rc ns key = None)"
  by (induction nss) (auto split: option.splits)

lemma specialKey_None:
  "key \<notin> {''hacknet'', ''document'', ''window'', ''corporation''} \<Longrightarrow> specialKey c key = None"
  by (simp add: specialKey_def)

lemma getRam_single:
  "getRamCalculationForKeys c rc player [key] = filterAndSum (baseEntry c # keyEntries c rc player key)"
  by (simp add: getRamCalculationForKeys_def processKey_unseen)

subsection \<open>Resolution order\<close>

text \<open>
  Claim C4, amended. For a key that is not one of the four special names: if the
  first namespace of the list \<open>namespaces\<close> whose table has the key is the one at
  index \<open>i\<close>, with value \<open>v\<close>, then the key resolves to \<open>v\<close> under the name
  \<open>namespace.key\<close>, the call on that key alone returns the base entry and the
  \<^verbatim>\<open>'fn'\<close> entry of that name and cost (the entry is dropped unless its cost is
  positive), whatever the top-level table holds, and in any list of keys that has the
  key the entry is in the result when its cost is positive. If no namespace of the
  list has the key, it resolves to the top-level entry under its bare name.
\<close>

theorem namespace_priority:
  assumes "key \<notin> {''hacknet'', ''document'', ''window'', ''corporation''}"
  shows "(i < length namespaces \<and> namespaceTable rc (namespaces ! i) key = Some v \<and>
          (\<forall>j<i. namespaceTable rc (namespaces ! j) key = None) \<longrightarrow>
            resolve rc key = (v, namespaces ! i @ ''.'' @ key) \<and>
            getRamCalculationForKeys c rc player [key] =
              filterAndSum [baseEntry c,
                \<lparr>type = Fn, name = namespaces ! i @ ''.'' @ key,
                 RamUsageEntry.cost = evalCost player v\<rparr>] \<and>
            (key \<in> set keys \<and> 0 < evalCost player v \<longrightarrow>
               \<lparr>type = Fn, name = namespaces ! i @ ''.'' @ key,
                RamUsageEntry.cost = evalCost player v\<rparr>
                 \<in> set (entries (getRamCalculationForKeys c rc player keys)))) \<and>
         ((\<forall>ns\<in>set namespaces. namespaceTable rc ns key = None) \<longrightarrow>
            resolve rc key = (getProperty (topLevel rc) key, key) \<and>
            getRamCalculationForKeys c rc player [key] =
              filterAndSum [baseEntry c,
                \<lparr>type = Fn, name = key,
                 RamUsageEntry.cost = evalCost player (getProperty (topLevel rc) key)\<rparr>])"
proof (intro conjI impI)
  note sp = specialKey_None [OF assms, of c]
  {
    assume h: "i < length namespaces \<and> namespaceTable rc (namespaces ! i) key = Some v \<and>
          (\<forall>j<i. namespaceTable rc (namespaces ! j) key = None)"
    then have fn: "findNamespace rc key namespaces = Some (v, namespaces ! i @ ''.'' @ key)"
      using findNamespace_first [of i namespaces rc key v] by blast
    then show r: "resolve rc key = (v, namespaces ! i @ ''.'' @ key)"
      by (simp add: resolve_def)
    have ke: "keyEntries c rc player key =
       (if evalCost player v = 0 then []
        else [\<lparr>type = Fn, name = namespaces ! i @ ''.'' @ key,
                RamUsageEntry.cost = evalCost player v\<rparr>])"
      by (simp add: keyEntries_def sp r)
    show "getRamCalculationForKeys c rc player [key] =
              filterAndSum [baseEntry c,
                \<lparr>type = Fn, name = namespaces ! i @ ''.'' @ key,
                 RamUsageEntry.cost = evalCost player v\<rparr>]"
      by (simp add: getRam_single ke filterAndSum_def)
    {
      assume k: "key \<in> set keys \<and> 0 < evalCost player v"
      then show "\<lparr>type = Fn, name = namespaces ! i @ ''.'' @ key,
                RamUsageEntry.cost = evalCost player v\<rparr>
                 \<in> set (entries (getRamCalculationForKeys c rc player keys))"
        using keyEntries_in_entries [of key keys _ c rc player] ke by simp
    }
  }
  {
    assume h: "\<forall>ns\<in>set namespaces. namespaceTable rc ns key = None"
    then have "findNamespace rc key namespaces = None"
      by (simp add: findNamespace_None)
    then show r: "resolve rc key = (getProperty (topLevel rc) key, key)"
      by (simp add: resolve_def)
    have ke: "keyEntries c rc player key =
       (if evalCost player (getProperty (topLevel rc) key) = 0 then []
        else [\<lparr>type = Fn, name = key,
                RamUsageEntry.cost = evalCost player (getProperty (topLevel rc) key)\<rparr>])"
      by (simp add: keyEntries_def sp r)
    show "getRamCalculationForKeys c rc player [key] =
              filterAndSum [baseEntry c,
                \<lparr>type = Fn, name = key,
                 RamUsageEntry.cost = evalCost player (getProperty (topLevel rc) key)\<rparr>]"
      by (simp add: getRam_single ke filterAndSum_def)
  }
qed

text \<open>
  In the example catalog \<open>getInformation\<close> is in the tables of \<open>gang\<close> (index 3)
  and \<open>sleeve\<close> (index 4) and at top level: the entry is the one of \<open>gang\<close>. The
  key \<open>hack\<close> is in no namespace and resolves at top level.
\<close>

theorem namespace_priority_witness:
  "getRamCalculationForKeys exampleConstants exampleCosts 3 [''getInformation''] =
     \<lparr>RamCalculation.cost = 3.6,
      entries = [\<lparr>type = Misc, name = ''baseCost'', RamUsageEntry.cost = 1.6\<rparr>,
                 \<lparr>type = Fn, name = ''gang.getInformation'', RamUsageEntry.cost = 2\<rparr>]\<rparr> \<and>
   getRamCalculationForKeys exampleConstants exampleCosts 3 [''hack''] =
     \<lparr>RamCalculation.cost = 1.7,
      entries = [\<lparr>type = Misc, name = ''baseCost'', RamUsageEntry.cost = 1.6\<rparr>,
                 \<lparr>type = Fn, name = ''hack'', RamUsageEntry.cost = 0.1\<rparr>]\<rparr>"
proof -
  have a: "''getInformation'' \<notin> {''hacknet'', ''document'', ''window'', ''corporation''}"
    and b: "''hack'' \<notin> {''hacknet'', ''document'', ''window'', ''corporation''}"
    by simp_all
  have p1: "3 < length namespaces \<and>
      namespaceTable exampleCosts (namespaces ! 3) ''getInformation'' = Some (Number 2) \<and>
      (\<forall>j<3. namespaceTable exampleCosts (namespaces ! j) ''getInformation'' = None)"
    by (simp add: namespaces_def exampleCosts_def All_less_Suc numeral_3_eq_3)
  have p2: "\<forall>ns\<in>set namespaces. namespaceTable exampleCosts ns ''hack'' = None"
    by (simp add: namespaces_def exampleCosts_def)
  have "getRamCalculationForKeys exampleConstants exampleCosts 3 [''getInformation''] =
      filterAndSum [baseEntry exampleConstants,
        \<lparr>type = Fn, name = namespaces ! 3 @ ''.'' @ ''getInformation'',
         RamUsageEntry.cost = evalCost (3::nat) (Number 2)\<rparr>]"
    using namespace_priority [OF a, of 3 exampleCosts "Number 2" exampleConstants 3] p1 by blast
  moreover have "getRamCalculationForKeys exampleConstants exampleCosts 3 [''hack''] =
      filterAndSum [baseEntry exampleConstants,
        \<lparr>type = Fn, name = ''hack'',
         RamUsageEntry.cost = evalCost 3 (getProperty (topLevel exampleCosts) ''hack'')\<rparr>]"
    using namespace_priority [OF b, of _ exampleCosts _ exampleConstants 3] p2 by blast
  ultimately show ?thesis
    by (simp add: filterAndSum_def baseEntry_def exampleConstants_def exampleCosts_def
        namespaces_def getProperty_def)
qed

text \<open>
  Without the condition on the special names the statement fails: \<open>hacknet\<close> is in
  the tables of \<open>bladeburner\<close> and \<open>gang\<close> of the example catalog, and the entry
  returned is the special one, of type \<^verbatim>\<open>'ns'\<close> and name \<open>hacknet\<close>.
\<close>

theorem special_name_shadows_namespaces:
  "namespaceTable exampleCosts ''bladeburner'' ''hacknet'' = Some (Number 5) \<and>
   namespaceTable exampleCosts ''gang'' ''hacknet'' = Some (Number 3) \<and>
   entries (getRamCalculationForKeys exampleConstants exampleCosts 3 [''hacknet'']) =
     [\<lparr>type = Misc, name = ''baseCost'', RamUsageEntry.cost = 1.6\<rparr>,
      \<lparr>type = Ns, name = ''hacknet'', RamUsageEntry.cost = 4\<rparr>]"
  by (simp add: example_defs)

subsection \<open>Duplicates\<close>

text \<open>
  Claim C5. The total for \<open>[n, n]\<close> is the total for \<open>[n]\<close>; more generally a
  second occurrence of a key anywhere in the list changes nothing in the result, and
  the result has at most one entry for each distinct key, besides the base entry.
\<close>

theorem duplicate_keys_collapse:
  "RamCalculation.cost (getRamCalculationForKeys c rc player [n, n]) =
     RamCalculation.cost (getRamCalculationForKeys c rc player [n]) \<and>
   getRamCalculationForKeys c rc player (xs @ n # ys @ n # zs) =
     getRamCalculationForKeys c rc player (xs @ n # ys @ zs) \<and>
   length (entries (getRamCalculationForKeys c rc player keys)) \<le> Suc (card (set keys))"
proof (intro conjI)
  show "RamCalculation.cost (getRamCalculationForKeys c rc player [n, n]) =
     RamCalculation.cost (getRamCalculationForKeys c rc player [n])"
    by (simp add: getRam_unseenKeys)
  have "unseenKeys {} ((xs @ n # ys) @ n # zs) = unseenKeys {} ((xs @ n # ys) @ zs)"
    unfolding unseenKeys_append [of "{}" "xs @ n # ys"] by simp
  then show "getRamCalculationForKeys c rc player (xs @ n # ys @ n # zs) =
     getRamCalculationForKeys c rc player (xs @ n # ys @ zs)"
    by (simp add: getRam_unseenKeys)
  show "length (entries (getRamCalculationForKeys c rc player keys)) \<le> Suc (card (set keys))"
    by (rule length_entries_getRam)
qed

subsection \<open>The total and the entries\<close>

text \<open>
  Claim C6. The field \<^verbatim>\<open>cost\<close> of the result is the sum of the field \<^verbatim>\<open>cost\<close> of
  the entries of the result.
\<close>

theorem total_is_sum_of_entries:
  "RamCalculation.cost (getRamCalculationForKeys c rc player keys) =
   (\<Sum>entry \<leftarrow> entries (getRamCalculationForKeys c rc player keys). RamUsageEntry.cost entry)"
  by (simp add: getRam_unseenKeys Let_def)

text \<open>
  Claim C7. Every entry of the result has a cost that is strictly positive.
\<close>

theorem entries_positive:
  "entry \<in> set (entries (getRamCalculationForKeys c rc player keys)) \<Longrightarrow>
   0 < RamUsageEntry.cost entry"
  by (simp add: getRamCalculationForKeys_def filterAndSum_def Let_def)

text \<open>
  With a level of 3 the function \<open>scaled\<close> of the example catalog costs 3 and its
  entry is in the result; \<open>refund\<close>, which costs -1, has none.
\<close>

theorem entries_positive_witness:
  "\<lparr>type = Fn, name = ''scaled'', RamUsageEntry.cost = 3\<rparr>
     \<in> set (entries (getRamCalculationForKeys exampleConstants exampleCosts 3
                       [''refund'', ''scaled''])) \<and>
   (0::real) < RamUsageEntry.cost \<lparr>type = Fn, name = ''scaled'', RamUsageEntry.cost = 3\<rparr>"
proof -
  have m: "\<lparr>type = Fn, name = ''scaled'', RamUsageEntry.cost = 3\<rparr>
     \<in> set (entries (getRamCalculationForKeys exampleConstants exampleCosts 3
                       [''refund'', ''scaled'']))"
    by (simp add: example_defs)
  from entries_positive [OF m] m show ?thesis by blast
qed

subsection \<open>Keys that contribute nothing, and the errors of the calls\<close>


lemma processKeyThrowing_seen:
  "key \<in> seen \<Longrightarrow> processKeyThrowing c rc player key (es, seen) = Inr (es, seen)"
  by (simp add: processKeyThrowing_def)

lemma processKeyThrowing_unseen:
  "key \<notin> seen \<Longrightarrow>
   processKeyThrowing c rc player key (es, seen) =
     (case keyEntriesThrowing c rc player key of
        Inl err \<Rightarrow> Inl err
      | Inr new \<Rightarrow> Inr (es @ new, insert key seen))"
  by (simp add: processKeyThrowing_def keyEntriesThrowing_def
      split: option.splits prod.splits sum.splits)

lemma forKeys_collect:
  "forKeys c rc player keys (es, seen) =
     (case collectEntries c rc player (unseenKeys seen keys) of
        Inl err \<Rightarrow> Inl err
      | Inr new \<Rightarrow> Inr (es @ new, seen \<union> set keys))"
proof (induction keys arbitrary: es seen)
  case Nil
  show ?case by simp
next
  case (Cons k ks)
  show ?case
  proof (cases "k \<in> seen")
    case True
    then have eq: "seen \<union> set (k # ks) = seen \<union> set ks" by auto
    have "forKeys c rc player (k # ks) (es, seen) = forKeys c rc player ks (es, seen)"
      using True by (simp add: processKeyThrowing_seen)
    then show ?thesis
      using True by (simp only: Cons.IH eq unseenKeys.simps if_True)
  next
    case False
    then show ?thesis
      by (simp add: processKeyThrowing_unseen Cons.IH split: sum.splits)
  qed
qed

lemma getRamThrowing_collect:
  "getRamCalculationForKeysThrowing c rc player keys =
     (case collectEntries c rc player (unseenKeys {} keys) of
        Inl err \<Rightarrow> Inl err
      | Inr new \<Rightarrow> Inr (filterAndSum (baseEntry c # new)))"
  by (simp add: getRamCalculationForKeysThrowing_def forKeys_collect split: sum.splits)



lemma collectEntries_Inr:
  "(\<And>k. k \<in> set ks \<Longrightarrow> \<exists>es. keyEntriesThrowing c rc player k = Inr es) \<Longrightarrow>
   \<exists>es. collectEntries c rc player ks = Inr es"
proof (induction ks)
  case Nil
  show ?case by simp
next
  case (Cons k ks)
  obtain es where "keyEntriesThrowing c rc player k = Inr es"
    using Cons.prems [of k] by auto
  moreover obtain es' where "collectEntries c rc player ks = Inr es'"
    using Cons.IH Cons.prems by auto
  ultimately show ?case by simp
qed


text \<open>The first model is the second on a run in which no call throws.\<close>

lemma findNamespace_withoutErrors:
  "findNamespace (withoutErrors rc) key nss =
   map_option (\<lambda>(v, nm). (asValue v, nm)) (findNamespaceObject rc key nss)"
  by (induction nss)
     (auto simp: withoutErrors_def visibleTable_def hasProperty_def getMember_def
           split: option.splits)

lemma resolve_withoutErrors:
  "resolve (withoutErrors rc) key =
   (asValue (fst (resolveObject rc key)), snd (resolveObject rc key))"
proof (cases "findNamespaceObject rc key namespaces")
  case None
  then have "findNamespace (withoutErrors rc) key namespaces = None"
    by (simp add: findNamespace_withoutErrors)
  then show ?thesis using None
    by (simp add: resolve_def resolveObject_def getProperty_def withoutErrors_def
        visibleTable_def getMember_def split: option.splits)
next
  case (Some r)
  then have "findNamespace (withoutErrors rc) key namespaces = Some (asValue (fst r), snd r)"
    by (simp add: findNamespace_withoutErrors split: prod.splits)
  then show ?thesis using Some
    by (simp add: resolve_def resolveObject_def)
qed

lemma evalCost_asValue:
  "callCost player v = Inr n \<Longrightarrow> evalCost player (asValue v) = n"
  by (cases v) auto

lemma keyEntries_withoutErrors:
  "keyEntriesThrowing c rc player key = Inr es \<Longrightarrow>
   keyEntries c (withoutErrors rc) player key = es"
  by (auto simp: keyEntriesThrowing_def keyEntries_def resolve_withoutErrors
        dest: evalCost_asValue split: option.splits sum.splits if_splits)

lemma collectEntries_withoutErrors:
  "collectEntries c rc player ks = Inr es \<Longrightarrow>
   concat (map (keyEntries c (withoutErrors rc) player) ks) = es"
  by (induction ks arbitrary: es)
     (auto simp: keyEntries_withoutErrors split: sum.splits)

lemma getRamThrowing_refines:
  "getRamCalculationForKeysThrowing c rc player keys = Inr r \<Longrightarrow>
   getRamCalculationForKeys c (withoutErrors rc) player keys = r"
  by (auto simp: getRamThrowing_collect getRamCalculationForKeys_def fold_processKey
        dest: collectEntries_withoutErrors split: sum.splits)










subsection \<open>Cost functions whose value is not positive\<close>

text \<open>
  Claim C10. When a key that is not special resolves to a function whose value on the
  player is negative or zero, the key adds no entry and nothing to the total: the
  call on that key alone returns what the base entry alone gives, and removing the
  key from any list of keys leaves the result unchanged. The result is still a list
  of entries of positive cost with their sum.
\<close>

theorem nonpositive_dynamic_cost_is_dropped:
  assumes "key \<notin> {''hacknet'', ''document'', ''window'', ''corporation''}"
    and "fst (resolve rc key) = Function f"
    and "f player \<le> 0"
  shows "getRamCalculationForKeys c rc player [key] = filterAndSum [baseEntry c] \<and>
         getRamCalculationForKeys c rc player keys =
           getRamCalculationForKeys c rc player (removeAll key keys) \<and>
         list_all (\<lambda>entry. 0 < RamUsageEntry.cost entry)
           (entries (getRamCalculationForKeys c rc player keys)) \<and>
         RamCalculation.cost (getRamCalculationForKeys c rc player keys) =
           sum_list (map RamUsageEntry.cost (entries (getRamCalculationForKeys c rc player keys)))"
proof -
  have ke: "filter (\<lambda>entry. RamUsageEntry.cost entry > 0) (keyEntries c rc player key) = []"
    using specialKey_None [OF assms(1), of c] assms(2,3) by (simp add: keyEntries_def)
  have 1: "getRamCalculationForKeys c rc player [key] = filterAndSum [baseEntry c]"
    using ke by (simp add: getRam_single filterAndSum_def)
  have 2: "getRamCalculationForKeys c rc player keys =
           getRamCalculationForKeys c rc player (removeAll key keys)"
    using getRam_removeAll [OF ke, of keys] by simp
  have 3: "list_all (\<lambda>entry. 0 < RamUsageEntry.cost entry)
           (entries (getRamCalculationForKeys c rc player keys))"
    by (simp add: getRamCalculationForKeys_def filterAndSum_def Let_def list_all_iff)
  have 4: "RamCalculation.cost (getRamCalculationForKeys c rc player keys) =
           sum_list (map RamUsageEntry.cost (entries (getRamCalculationForKeys c rc player keys)))"
    by (simp add: getRam_unseenKeys Let_def)
  from 1 2 3 4 show ?thesis by blast
qed

text \<open>
  The function \<open>refund\<close> of the example catalog returns -1; \<open>scaled\<close> returns
  the level, 0 here.
\<close>

theorem nonpositive_dynamic_cost_is_dropped_witness:
  "getRamCalculationForKeys exampleConstants exampleCosts 3 [''refund''] =
     \<lparr>RamCalculation.cost = 1.6,
      entries = [\<lparr>type = Misc, name = ''baseCost'', RamUsageEntry.cost = 1.6\<rparr>]\<rparr> \<and>
   getRamCalculationForKeys exampleConstants exampleCosts 0 [''scaled'', ''hack''] =
     getRamCalculationForKeys exampleConstants exampleCosts 0 [''hack'']"
proof -
  have a: "''refund'' \<notin> {''hacknet'', ''document'', ''window'', ''corporation''}"
    and b: "''scaled'' \<notin> {''hacknet'', ''document'', ''window'', ''corporation''}"
    by simp_all
  have r1: "fst (resolve exampleCosts ''refund'') = Function (\<lambda>level. - 1)"
    and r2: "fst (resolve exampleCosts ''scaled'') = Function (\<lambda>level. real level)"
    by (simp_all add: resolve_def namespaces_def exampleCosts_def getProperty_def)
  show ?thesis
    using nonpositive_dynamic_cost_is_dropped [where key = "''refund''" and rc = exampleCosts
        and f = "\<lambda>level. - 1" and player = 3 and c = exampleConstants and keys = "[]", OF a r1]
      nonpositive_dynamic_cost_is_dropped [where key = "''scaled''" and rc = exampleCosts
        and f = "\<lambda>level. real level" and player = 0 and c = exampleConstants
        and keys = "[''scaled'', ''hack'']", OF b r2]
    by (simp add: filterAndSum_def baseEntry_def exampleConstants_def)
qed

subsection \<open>Special names\<close>

text \<open>
  Claim C9. The special names are \<open>hacknet\<close>, \<open>document\<close>, \<open>window\<close> and
  \<open>corporation\<close>. When the constant \<^verbatim>\<open>ScriptCorporationRamCost\<close> is positive, the
  call on \<open>corporation\<close> alone returns the base entry and the entry of type
  \<^verbatim>\<open>'ns'\<close>, name \<open>corporation\<close> and that cost, for every player and every
  catalog, and that entry is in the result for any list of keys that has
  \<open>corporation\<close>.
\<close>

theorem corporation_is_special:
  assumes "0 < ScriptCorporationRamCost c"
  shows "getRamCalculationForKeys c rc player [''corporation''] =
           filterAndSum [baseEntry c,
             \<lparr>type = Ns, name = ''corporation'',
              RamUsageEntry.cost = ScriptCorporationRamCost c\<rparr>] \<and>
         (''corporation'' \<in> set keys \<longrightarrow>
            \<lparr>type = Ns, name = ''corporation'', RamUsageEntry.cost = ScriptCorporationRamCost c\<rparr>
              \<in> set (entries (getRamCalculationForKeys c rc player keys))) \<and>
         (specialKey c key \<noteq> None \<longleftrightarrow>
            key \<in> {''hacknet'', ''document'', ''window'', ''corporation''})"
proof -
  have ke: "keyEntries c rc player ''corporation'' =
     [\<lparr>type = Ns, name = ''corporation'', RamUsageEntry.cost = ScriptCorporationRamCost c\<rparr>]"
    by (simp add: keyEntries_def specialKey_def)
  have 1: "getRamCalculationForKeys c rc player [''corporation''] =
           filterAndSum [baseEntry c,
             \<lparr>type = Ns, name = ''corporation'',
              RamUsageEntry.cost = ScriptCorporationRamCost c\<rparr>]"
    by (simp add: getRam_single ke)
  have 2: "''corporation'' \<in> set keys \<longrightarrow>
            \<lparr>type = Ns, name = ''corporation'', RamUsageEntry.cost = ScriptCorporationRamCost c\<rparr>
              \<in> set (entries (getRamCalculationForKeys c rc player keys))"
    using keyEntries_in_entries [of "''corporation''" keys _ c rc player] ke assms by simp
  have 3: "specialKey c key \<noteq> None \<longleftrightarrow>
            key \<in> {''hacknet'', ''document'', ''window'', ''corporation''}"
    by (simp add: specialKey_def)
  from 1 2 3 show ?thesis by blast
qed

text \<open>
  The example catalog has \<open>corporation\<close> in the table of \<open>stock\<close> and at top
  level; neither is read.
\<close>

theorem corporation_is_special_witness:
  "namespaceTable exampleCosts ''stock'' ''corporation'' = Some (Number 1) \<and>
   topLevel exampleCosts ''corporation'' = Some (Number 2) \<and>
   getRamCalculationForKeys exampleConstants exampleCosts 3 [''corporation''] =
     \<lparr>RamCalculation.cost = 1024,
      entries = [\<lparr>type = Misc, name = ''baseCost'', RamUsageEntry.cost = 1.6\<rparr>,
                 \<lparr>type = Ns, name = ''corporation'', RamUsageEntry.cost = 1022.4\<rparr>]\<rparr>"
proof -
  have p: "0 < ScriptCorporationRamCost exampleConstants"
    by (simp add: exampleConstants_def)
  show ?thesis
    using corporation_is_special [OF p, of exampleCosts 3]
    by (simp add: filterAndSum_def baseEntry_def exampleConstants_def exampleCosts_def)
qed

section \<open>The loop safety analyzer\<close>

lemma fold_loopWalk:
  assumes "\<And>x m. x \<in> set cs \<Longrightarrow>
     loopWalk code x m =
       (if reachableUnsafeLoops x = [] then m else lineOf code (last (reachableUnsafeLoops x)))"
  shows "fold (loopWalk code) cs m =
     (if concat (map reachableUnsafeLoops cs) = [] then m
      else lineOf code (last (concat (map reachableUnsafeLoops cs))))"
  using assms
proof (induction cs arbitrary: m)
  case Nil
  show ?case by simp
next
  case (Cons x xs)
  have tl: "fold (loopWalk code) xs m' =
     (if concat (map reachableUnsafeLoops xs) = [] then m'
      else lineOf code (last (concat (map reachableUnsafeLoops xs))))" for m'
    using Cons.IH Cons.prems by simp
  have hd: "loopWalk code x m =
       (if reachableUnsafeLoops x = [] then m else lineOf code (last (reachableUnsafeLoops x)))"
    using Cons.prems by simp
  show ?case
    by (simp add: tl hd last_append)
qed

lemma loopWalk_last:
  "loopWalk code ast m =
     (if reachableUnsafeLoops ast = [] then m
      else lineOf code (last (reachableUnsafeLoops ast)))"
proof (induction ast arbitrary: m)
  case (Literal start raw)
  show ?case by simp
next
  case (AwaitExpression start argument)
  then show ?case by simp
next
  case (WhileStatement start test body)
  then show ?case by simp
next
  case (OtherNode ty start children)
  then show ?case using fold_loopWalk [of children code m] by simp
qed

text \<open>
  Claim C1, amended. The function returns the line of the last unsafe loop that the
  walk reaches, since every unsafe loop met assigns \<^verbatim>\<open>missingAwaitLine\<close> anew; it
  returns -1 when the walk reaches none.
\<close>

theorem checkInfiniteLoop_reports_last:
  "checkInfiniteLoop code ast =
     (if reachableUnsafeLoops ast = [] then - 1
      else lineOf code (last (reachableUnsafeLoops ast)))"
  by (simp add: checkInfiniteLoop_def loopWalk_last)

text \<open>
  With two unsafe loops, at offset 0 on line 1 and at offset 14 on line 2, the
  function returns 2, not the line of the first.
\<close>

theorem two_loops_report_second:
  "reachableUnsafeLoops twoLoopsAst = [0, 14] \<and>
   lineOf twoLoopsCode 0 = 1 \<and>
   lineOf twoLoopsCode 14 = 2 \<and>
   checkInfiniteLoop twoLoopsCode twoLoopsAst = 2 \<and>
   checkInfiniteLoop twoLoopsCode twoLoopsAst \<noteq>
     lineOf twoLoopsCode (hd (reachableUnsafeLoops twoLoopsAst))"
  by (simp add: twoLoopsAst_def twoLoopsCode_def checkInfiniteLoop_def lineOf_def hasAwait_def)

text \<open>
  Claim C2. The walk of an unsafe loop yields the line of that loop and does not depend
  on what its body holds, so a loop nested in it is not reported. The walk of a loop
  whose test is the literal \<^verbatim>\<open>true\<close> and whose subtree has an await expression is
  the walk of its body, so an unsafe loop nested in it is reported.
\<close>

theorem condemned_loop_body_not_walked:
  "(nodeHasTrueTest test \<and> \<not> hasAwait (WhileStatement start test body) \<longrightarrow>
      loopWalk code (WhileStatement start test body) m = lineOf code start \<and>
      checkInfiniteLoop code (OtherNode ''Program'' 0 [WhileStatement start test body]) =
        lineOf code start) \<and>
   (nodeHasTrueTest test \<and> hasAwait (WhileStatement start test body) \<longrightarrow>
      loopWalk code (WhileStatement start test body) m = loopWalk code body m \<and>
      checkInfiniteLoop code (OtherNode ''Program'' 0 [WhileStatement start test body]) =
        checkInfiniteLoop code body)"
  by (simp add: checkInfiniteLoop_def)

text \<open>
  The inner loop of line 2 is not reported inside the unsafe loop of line 1, and is
  reported inside the loop that awaits. In the one-line source the loop at offset 22,
  inside the loop that awaits, is the one reported.
\<close>

theorem condemned_loop_body_not_walked_witness:
  "checkInfiniteLoop nestedUnsafeCode nestedUnsafeAst = 1 \<and>
   reachableUnsafeLoops nestedUnsafeAst = [0] \<and>
   checkInfiniteLoop nestedSafeCode nestedSafeAst = 2 \<and>
   reachableUnsafeLoops nestedSafeAst = [15] \<and>
   checkInfiniteLoop ifNestedCode ifNestedAst = 1 \<and>
   reachableUnsafeLoops ifNestedAst = [22]"
  using condemned_loop_body_not_walked [of "Literal 6 ''true''" 0
      "OtherNode ''BlockStatement'' 11
         [WhileStatement 15 (Literal 21 ''true'') (OtherNode ''BlockStatement'' 26 [])]"
      nestedUnsafeCode "- 1"]
    condemned_loop_body_not_walked [of "Literal 6 ''true''" 0
      "OtherNode ''BlockStatement'' 11
             [WhileStatement 15 (Literal 21 ''true'') (OtherNode ''BlockStatement'' 26 []),
              OtherNode ''ExpressionStatement'' 31
                [AwaitExpression 31
                   (OtherNode ''CallExpression'' 37 [OtherNode ''Identifier'' 37 []])]]"
      nestedSafeCode "- 1"]
  by (simp add: nestedUnsafeAst_def nestedUnsafeCode_def nestedSafeAst_def nestedSafeCode_def
        ifNestedAst_def ifNestedCode_def checkInfiniteLoop_def lineOf_def hasAwait_def)

text \<open>
  Claim C3. The function returns 1 on \<^verbatim>\<open>while(true){}\<close>, and -1 on
  \<^verbatim>\<open>while(true){ await f(); }\<close> and on \<^verbatim>\<open>while(false){}\<close>. A test condemns a
  loop only when it is a literal whose raw text is \<^verbatim>\<open>true\<close>, and the line of an
  offset is the number of newline characters before it, plus one.
\<close>

theorem checkInfiniteLoop_examples:
  "checkInfiniteLoop ''while(true){}'' whileTrueAst = 1 \<and>
   checkInfiniteLoop ''while(true){ await f(); }'' whileTrueAwaitAst = - 1 \<and>
   checkInfiniteLoop ''while(false){}'' whileFalseAst = - 1 \<and>
   (nodeHasTrueTest n \<longleftrightarrow> (\<exists>start. n = Literal start ''true'')) \<and>
   lineOf code start = int (length (filter (\<lambda>ch. ch = CHR 0x0A) (take start code))) + 1"
  by (cases n) (simp_all add: whileTrueAst_def whileTrueAwaitAst_def whileFalseAst_def
        checkInfiniteLoop_def lineOf_def hasAwait_def)

end
